theory Spec2Isabelle
  imports Main "HOL-Library.Word"
begin

section \<open>Package id: 128-bit identifiers and their base-58 text form\<close>

text \<open>
  The Go type \<^verbatim>\<open>ID\<close> is a struct with the single field \<^verbatim>\<open>value [16]byte\<close>.
  An identifier is modelled as the list of its bytes; a value of the Go type is a list of
  length 16. The arbitrary-precision integers of \<^verbatim>\<open>math/big\<close> are natural numbers.
\<close>

type_synonym byte = "8 word"
type_synonym ID = "byte list"

datatype error =
    InvalidLength nat           \<comment> \<open>"invalid b58 string length (%v)"\<close>
  | InvalidByte char            \<comment> \<open>"invalid byte inside b58 string (%v)"\<close>
  | IdDoesntExist               \<comment> \<open>"id doesn't exist"\<close>
  | ChildAlreadyThere           \<comment> \<open>"child already there"\<close>
  | DuplicitId                  \<comment> \<open>"duplicite id"\<close>
  | IdNotFound                  \<comment> \<open>"id not found"\<close>
  | ChildAlreadyExists          \<comment> \<open>"child with this id already exists"\<close>
  | GarbageDirectory            \<comment> \<open>"garbage directory in fs root"\<close>
  | GarbageFile string          \<comment> \<open>"garbage file in fs root: %s"\<close>
  | JsonDecodeErr               \<comment> \<open>"json decore err: %w"\<close>
  | RootNotFound                \<comment> \<open>"the root ID not found in fs"\<close>
  | OsError                     \<comment> \<open>an error handed up from package os\<close>

definition b58table :: string where
  "b58table = ''123456789ABCDEFGHJKLMNPQRSTUVWXYZabcdefghijkmnopqrstuvwxyz''"

definition strlen :: nat where
  "strlen = 22"

text \<open>\<^verbatim>\<open>new(big.Int).SetBytes\<close>: the bytes read as a big-endian unsigned integer.\<close>

definition SetBytes :: "byte list \<Rightarrow> nat" where
  "SetBytes bs = foldl (\<lambda>n b. n * 256 + unat b) 0 bs"

text \<open>\<^verbatim>\<open>(*big.Int).Bytes\<close>: the big-endian bytes without leading zeros; empty for 0.\<close>

function Bytes :: "nat \<Rightarrow> byte list" where
  "Bytes n = (if n = 0 then [] else Bytes (n div 256) @ [of_nat (n mod 256)])"
  by pat_completeness auto
termination
  by (relation "measure id") auto

declare Bytes.simps [simp del]

text \<open>
  \<^verbatim>\<open>ID.String\<close>. The first loop divides by 58 until the number is zero and appends one
  symbol per remainder, the second pads with \<^verbatim>\<open>table[0]\<close> up to \<^verbatim>\<open>strlen\<close>, the third
  reverses the buffer in place.
\<close>

function encode_loop :: "nat \<Rightarrow> string \<Rightarrow> string" where
  "encode_loop n e =
     (if n \<noteq> 0 then encode_loop (n div 58) (e @ [b58table ! (n mod 58)]) else e)"
  by pat_completeness auto
termination
  by (relation "measure fst") auto

declare encode_loop.simps [simp del]

function pad_loop :: "string \<Rightarrow> string" where
  "pad_loop e = (if length e < strlen then pad_loop (e @ [b58table ! 0]) else e)"
  by pat_completeness auto
termination
  by (relation "measure (\<lambda>e. strlen - length e)") auto

declare pad_loop.simps [simp del]

definition String :: "ID \<Rightarrow> string" where
  "String v = rev (pad_loop (encode_loop (SetBytes v) []))"

text \<open>\<^verbatim>\<open>strings.IndexByte\<close>: the index of the first occurrence, \<open>None\<close> for Go's -1.\<close>

fun IndexByte :: "string \<Rightarrow> char \<Rightarrow> nat option" where
  "IndexByte [] c = None"
| "IndexByte (x # xs) c =
     (if x = c then Some 0 else map_option Suc (IndexByte xs c))"

text \<open>The loop of \<^verbatim>\<open>Parse\<close> over the bytes of the string, with the accumulator \<^verbatim>\<open>result\<close>.\<close>

fun parse_loop :: "string \<Rightarrow> nat \<Rightarrow> error + nat" where
  "parse_loop [] result = Inr result"
| "parse_loop (r # rs) result =
     (case IndexByte b58table r of
        None \<Rightarrow> Inl (InvalidByte r)
      | Some idx \<Rightarrow> parse_loop rs (result * 58 + idx))"

text \<open>
  The builtin \<^verbatim>\<open>copy(dst, src)\<close> overwrites the first \<open>min (len dst) (len src)\<close>
  elements of the destination.
\<close>

definition copy :: "'a list \<Rightarrow> 'a list \<Rightarrow> 'a list" where
  "copy dst src = take (min (length dst) (length src)) src
                  @ drop (min (length dst) (length src)) dst"

definition zeroID :: ID where
  "zeroID = replicate 16 0"

definition Parse :: "string \<Rightarrow> error + ID" where
  "Parse s =
     (if length s \<noteq> strlen then Inl (InvalidLength (length s))
      else case parse_loop s 0 of
        Inl err \<Rightarrow> Inl err
      | Inr result \<Rightarrow>
          (let bytes = Bytes result;
               bytes = (if length bytes < 16
                        then replicate (16 - length bytes) 0 @ bytes else bytes)
           in Inr (copy zeroID bytes)))"

section \<open>Package fs: the record store\<close>

subsection \<open>How a call ends\<close>

text \<open>
  A Go call returns, panics, brings the whole process down with a fatal run-time error, or
  never comes back because it waits for a lock that nobody will release. The model runs one
  goroutine, so a lock that is already taken is never released by anyone else.
  \<open>OutOfFuel\<close> belongs to the model only: the recursion between \<^verbatim>\<open>Unmount\<close> and
  \<^verbatim>\<open>deleteRecord\<close> is bounded by a counter.
\<close>

datatype 'a result =
    Return 'a
  | Panic
  | Fatal
  | Blocked
  | OutOfFuel

subsection \<open>Data\<close>

text \<open>
  The struct \<^verbatim>\<open>record\<close>. The unexported field \<^verbatim>\<open>id\<close> is called \<open>ident\<close> here,
  \<^verbatim>\<open>refs\<close> is a Go \<^verbatim>\<open>uint\<close> (64 bits), and \<open>mutex\<close> holds whether the
  \<^verbatim>\<open>sync.Mutex\<close> is locked.
\<close>

record record_obj =
  Children :: "ID list"
  IsDir :: bool
  Name :: string
  ident :: ID
  refs :: "64 word"
  mutex :: bool

text \<open>The value of \<^verbatim>\<open>new(record)\<close>: every field zero.\<close>

definition new_record :: record_obj where
  "new_record = \<lparr>Children = [], IsDir = False, Name = [], ident = zeroID, refs = 0,
                  mutex = False\<rparr>"

text \<open>
  What a file holds, as far as the store reads it: a JSON document of a record
  (\<^verbatim>\<open>children\<close> as the identifiers' text forms, \<^verbatim>\<open>is_dir\<close>, \<^verbatim>\<open>name\<close>), or anything
  else. A directory entry is a directory or a file.
\<close>

datatype content = Doc "string list" bool string | Opaque

datatype dirent = Dir | File content

text \<open>
  The state: the \<^verbatim>\<open>Fs\<close> object (the \<^verbatim>\<open>sync.RWMutex\<close> as its number of readers and
  whether a writer holds it, the map \<^verbatim>\<open>records\<close> from identifiers to pointers,
  \<^verbatim>\<open>root\<close>, \<^verbatim>\<open>basePath\<close>), the record objects that the pointers lead to
  (\<open>heap\<close>, with the next unused address), and the two directories the code touches:
  the one at \<^verbatim>\<open>basePath\<close>, with its entries in the order \<^verbatim>\<open>os.ReadDir\<close> lists them,
  and the working directory of the process, where relative paths are looked up.
  \<open>base_ok\<close> says that the directory at \<^verbatim>\<open>basePath\<close> exists and can be used;
  \<open>cwd_is_base\<close> says that the working directory is that same directory.
\<close>

record state =
  lock_readers :: nat
  lock_writer :: bool
  records :: "ID \<rightharpoonup> nat"
  root :: ID
  basePath :: string
  heap :: "nat \<Rightarrow> record_obj"
  next_addr :: nat
  base_ok :: bool
  base_dir :: "(string \<times> dirent) list"
  work_dir :: "(string \<times> dirent) list"
  cwd_is_base :: bool

definition upd_obj :: "state \<Rightarrow> nat \<Rightarrow> (record_obj \<Rightarrow> record_obj) \<Rightarrow> state" where
  "upd_obj s a f = s\<lparr>heap := (heap s)(a := f (heap s a))\<rparr>"

subsection \<open>Sequencing and deferred calls\<close>

definition seq ::
  "state \<times> 'a result \<Rightarrow> (state \<Rightarrow> 'a \<Rightarrow> state \<times> 'b result) \<Rightarrow> state \<times> 'b result" where
  "seq m f =
     (case m of
        (s, Return a) \<Rightarrow> f s a
      | (s, Panic) \<Rightarrow> (s, Panic)
      | (s, Fatal) \<Rightarrow> (s, Fatal)
      | (s, Blocked) \<Rightarrow> (s, Blocked)
      | (s, OutOfFuel) \<Rightarrow> (s, OutOfFuel))"

text \<open>
  \<^verbatim>\<open>defer d()\<close> followed by the rest of the function body \<open>m\<close>: the deferred call runs
  when the body returns and when it panics, and the panic goes on afterwards. It does not
  run when the process has died or the body never finishes.
\<close>

definition with_defer ::
  "(state \<Rightarrow> state \<times> unit result) \<Rightarrow> state \<times> 'a result \<Rightarrow> state \<times> 'a result" where
  "with_defer d m =
     (case m of
        (s, Return a) \<Rightarrow> seq (d s) (\<lambda>s' _. (s', Return a))
      | (s, Panic) \<Rightarrow> seq (d s) (\<lambda>s' _. (s', Panic))
      | (s, Fatal) \<Rightarrow> (s, Fatal)
      | (s, Blocked) \<Rightarrow> (s, Blocked)
      | (s, OutOfFuel) \<Rightarrow> (s, OutOfFuel))"

subsection \<open>Locks\<close>

text \<open>
  \<^verbatim>\<open>sync.RWMutex\<close>, as package sync documents it: \<^verbatim>\<open>RLock\<close> waits while a writer
  holds the lock, \<^verbatim>\<open>Lock\<close> waits while anyone holds it, and \<^verbatim>\<open>Unlock\<close> is a fatal
  run-time error ("sync: Unlock of unlocked RWMutex") when the lock is not held for writing.
  The code never calls \<^verbatim>\<open>RUnlock\<close>.
\<close>

definition RLock :: "state \<Rightarrow> state \<times> unit result" where
  "RLock s = (if lock_writer s then (s, Blocked)
              else (s\<lparr>lock_readers := lock_readers s + 1\<rparr>, Return ()))"

definition Lock :: "state \<Rightarrow> state \<times> unit result" where
  "Lock s = (if lock_writer s \<or> 0 < lock_readers s then (s, Blocked)
             else (s\<lparr>lock_writer := True\<rparr>, Return ()))"

definition Unlock :: "state \<Rightarrow> state \<times> unit result" where
  "Unlock s = (if lock_writer s then (s\<lparr>lock_writer := False\<rparr>, Return ())
               else (s, Fatal))"

text \<open>
  \<^verbatim>\<open>(*record).lock\<close> and \<^verbatim>\<open>(*record).unlock\<close> on a pointer that may be nil. A
  \<^verbatim>\<open>sync.Mutex\<close> is not reentrant, and unlocking an unlocked one is a fatal error.
\<close>

definition lock :: "state \<Rightarrow> nat option \<Rightarrow> state \<times> unit result" where
  "lock s r =
     (case r of
        None \<Rightarrow> (s, Panic)
      | Some a \<Rightarrow>
          if mutex (heap s a) then (s, Blocked)
          else (upd_obj s a (\<lambda>x. x\<lparr>mutex := True\<rparr>), Return ()))"

definition unlock :: "state \<Rightarrow> nat option \<Rightarrow> state \<times> unit result" where
  "unlock s r =
     (case r of
        None \<Rightarrow> (s, Panic)
      | Some a \<Rightarrow>
          if mutex (heap s a) then (upd_obj s a (\<lambda>x. x\<lparr>mutex := False\<rparr>), Return ())
          else (s, Fatal))"

subsection \<open>The operating system\<close>

text \<open>
  \<^verbatim>\<open>os.ReadDir\<close> lists the entries sorted by file name, and Go compares strings byte
  by byte. A directory is kept in that order: writing to a name that exists replaces the
  entry where it stands, and a new name goes in front of the first greater one.
\<close>

fun name_less :: "string \<Rightarrow> string \<Rightarrow> bool" where
  "name_less [] [] = False"
| "name_less [] (y # ys) = True"
| "name_less (x # xs) [] = False"
| "name_less (x # xs) (y # ys) =
     ((of_char x :: nat) < of_char y \<or> (x = y \<and> name_less xs ys))"

fun replace_entry ::
  "(string \<times> dirent) list \<Rightarrow> string \<Rightarrow> dirent \<Rightarrow> (string \<times> dirent) list" where
  "replace_entry [] n e = []"
| "replace_entry ((m, d) # es) n e =
     (if m = n then (n, e) # replace_entry es n e else (m, d) # replace_entry es n e)"

fun insert_entry ::
  "(string \<times> dirent) list \<Rightarrow> string \<Rightarrow> dirent \<Rightarrow> (string \<times> dirent) list" where
  "insert_entry [] n e = [(n, e)]"
| "insert_entry ((m, d) # es) n e =
     (if name_less n m then (n, e) # (m, d) # es else (m, d) # insert_entry es n e)"

definition put_entry ::
  "(string \<times> dirent) list \<Rightarrow> string \<Rightarrow> dirent \<Rightarrow> (string \<times> dirent) list" where
  "put_entry es n e =
     (case map_of es n of
        None \<Rightarrow> insert_entry es n e
      | Some d \<Rightarrow> replace_entry es n e)"

text \<open>\<^verbatim>\<open>os.ReadDir(fs.basePath)\<close>.\<close>

definition ReadDir :: "state \<Rightarrow> error + (string \<times> dirent) list" where
  "ReadDir s = (if base_ok s then Inr (base_dir s) else Inl OsError)"

text \<open>
  \<^verbatim>\<open>os.Create(fs.path(name))\<close>: the file in the directory at \<^verbatim>\<open>basePath\<close> is created,
  or emptied when it exists; a directory of that name is an error.
\<close>

definition Create :: "state \<Rightarrow> string \<Rightarrow> error + state" where
  "Create s name =
     (if \<not> base_ok s then Inl OsError
      else case map_of (base_dir s) name of
        Some Dir \<Rightarrow> Inl OsError
      | _ \<Rightarrow> Inr (s\<lparr>base_dir := put_entry (base_dir s) name (File Opaque)\<rparr>))"

text \<open>
  \<^verbatim>\<open>os.Open(fs.path(name))\<close>, as far as the reader of the contents is concerned: nothing
  can be read from a directory.
\<close>

definition Open :: "state \<Rightarrow> string \<Rightarrow> error + content" where
  "Open s name =
     (if \<not> base_ok s then Inl OsError
      else case map_of (base_dir s) name of
        None \<Rightarrow> Inl OsError
      | Some Dir \<Rightarrow> Inr Opaque
      | Some (File c) \<Rightarrow> Inr c)"

text \<open>
  \<^verbatim>\<open>os.Remove(name)\<close> with a bare file name: the name is looked up in the working
  directory of the process.
\<close>

definition Remove :: "state \<Rightarrow> string \<Rightarrow> error + state" where
  "Remove s name =
     (if cwd_is_base s then
        (if base_ok s \<and> map_of (base_dir s) name \<noteq> None
         then Inr (s\<lparr>base_dir := filter (\<lambda>e. fst e \<noteq> name) (base_dir s)\<rparr>)
         else Inl OsError)
      else
        (if map_of (work_dir s) name \<noteq> None
         then Inr (s\<lparr>work_dir := filter (\<lambda>e. fst e \<noteq> name) (work_dir s)\<rparr>)
         else Inl OsError))"

text \<open>\<^verbatim>\<open>strings.HasPrefix\<close>.\<close>

definition HasPrefix :: "string \<Rightarrow> string \<Rightarrow> bool" where
  "HasPrefix s p = (take (length p) s = p)"

subsection \<open>The patterns\<close>

definition in_range :: "char \<Rightarrow> char \<Rightarrow> char \<Rightarrow> bool" where
  "in_range lo hi c = ((of_char lo :: nat) \<le> of_char c \<and> (of_char c :: nat) \<le> of_char hi)"

text \<open>\<^verbatim>\<open>[1-9A-HJ-NP-Za-km-z]\<close>\<close>

definition idPattern_char :: "char \<Rightarrow> bool" where
  "idPattern_char c =
     (in_range CHR ''1'' CHR ''9'' c \<or> in_range CHR ''A'' CHR ''H'' c \<or>
      in_range CHR ''J'' CHR ''N'' c \<or> in_range CHR ''P'' CHR ''Z'' c \<or>
      in_range CHR ''a'' CHR ''k'' c \<or> in_range CHR ''m'' CHR ''z'' c)"

text \<open>\<^verbatim>\<open>[a-zA-Z0-9_-]\<close>\<close>

definition sectionPattern_char :: "char \<Rightarrow> bool" where
  "sectionPattern_char c =
     (in_range CHR ''a'' CHR ''z'' c \<or> in_range CHR ''A'' CHR ''Z'' c \<or>
      in_range CHR ''0'' CHR ''9'' c \<or> c = CHR ''_'' \<or> c = CHR ''-'')"

text \<open>
  \<^verbatim>\<open>onlyFileInFsRootPatternRegex.MatchString\<close>: the whole name is 22 identifier symbols,
  optionally followed by a dot and one or more section symbols.
\<close>

definition onlyFileInFsRootPattern :: "string \<Rightarrow> bool" where
  "onlyFileInFsRootPattern name =
     (22 \<le> length name \<and> list_all idPattern_char (take 22 name) \<and>
      (case drop 22 name of
         [] \<Rightarrow> True
       | c # section \<Rightarrow> c = CHR ''.'' \<and> section \<noteq> [] \<and> list_all sectionPattern_char section))"

subsection \<open>Records in memory and on disk\<close>

text \<open>
  \<^verbatim>\<open>(*Fs).record\<close>. The read lock is taken with \<^verbatim>\<open>RLock\<close> and the deferred call is
  \<^verbatim>\<open>Unlock\<close>. The body looks the identifier up with the two-valued map read
  (\<open>r\<close> is nil when the key is absent, \<open>e\<close> tells whether it is present) and returns
  the error when \<open>e\<close> holds.
\<close>

definition record_body :: "state \<Rightarrow> ID \<Rightarrow> nat option \<times> error option" where
  "record_body s u =
     (let r = records s u; e = (records s u \<noteq> None)
      in if e then (None, Some IdDoesntExist) else (r, None))"

definition fs_record :: "state \<Rightarrow> ID \<Rightarrow> state \<times> (nat option \<times> error option) result" where
  "fs_record s u =
     seq (RLock s) (\<lambda>s _. with_defer Unlock (s, Return (record_body s u)))"

text \<open>\<^verbatim>\<open>(*Fs).setRecord\<close>, called with a pointer that is not nil.\<close>

definition setRecord :: "state \<Rightarrow> nat \<Rightarrow> state \<times> unit result" where
  "setRecord s r =
     seq (Lock s) (\<lambda>s _. with_defer Unlock
       (s\<lparr>records := (records s)(ident (heap s r) \<mapsto> r)\<rparr>, Return ()))"

text \<open>
  \<^verbatim>\<open>json.NewEncoder(f).Encode(r)\<close> into the file just created: the exported fields, the
  children as their text forms.
\<close>

definition Encode :: "state \<Rightarrow> string \<Rightarrow> record_obj \<Rightarrow> state" where
  "Encode s name r =
     s\<lparr>base_dir := put_entry (base_dir s) name
          (File (Doc (map String (Children r)) (IsDir r) (Name r)))\<rparr>"

text \<open>\<^verbatim>\<open>(*Fs).writeRecord\<close>, called with a pointer that is not nil.\<close>

definition writeRecord :: "state \<Rightarrow> nat \<Rightarrow> state \<times> error option result" where
  "writeRecord s r =
     (case Create s (String (ident (heap s r))) of
        Inl err \<Rightarrow> (s, Return (Some err))
      | Inr s' \<Rightarrow> (Encode s' (String (ident (heap s r))) (heap s r), Return None))"

text \<open>
  \<^verbatim>\<open>id.New\<close>: \<open>rnd\<close> is what \<^verbatim>\<open>rand.Read\<close> delivers, \<open>None\<close> when it fails.
\<close>

definition New :: "state \<Rightarrow> ID option \<Rightarrow> state \<times> ID result" where
  "New s rnd = (case rnd of None \<Rightarrow> (s, Panic) | Some v \<Rightarrow> (s, Return v))"

text \<open>
  \<^verbatim>\<open>(*Fs).newRecord\<close>. The parent pointer may be nil; reading its \<^verbatim>\<open>Children\<close> then
  panics. The result is the pair the Go function returns: the pointer and the error.
\<close>

definition newRecord ::
  "state \<Rightarrow> nat option \<Rightarrow> string \<Rightarrow> bool \<Rightarrow> ID option
     \<Rightarrow> state \<times> (nat option \<times> error option) result" where
  "newRecord s parent name dir rnd =
     (let child = next_addr s;
          s = s\<lparr>next_addr := child + 1, heap := (heap s)(child := new_record)\<rparr>;
          s = upd_obj s child (\<lambda>x. x\<lparr>Children := []\<rparr>)
      in seq (New s rnd) (\<lambda>s v.
           let s = upd_obj s child (\<lambda>x. x\<lparr>ident := v\<rparr>);
               s = upd_obj s child (\<lambda>x. x\<lparr>Name := name\<rparr>);
               s = upd_obj s child (\<lambda>x. x\<lparr>refs := 1\<rparr>);
               s = upd_obj s child (\<lambda>x. x\<lparr>IsDir := dir\<rparr>)
           in seq (setRecord s child) (\<lambda>s _.
                case parent of
                  None \<Rightarrow> (s, Panic)
                | Some p \<Rightarrow>
                    if ident (heap s child) \<in> set (Children (heap s p))
                    then (s, Return (None, Some ChildAlreadyThere))
                    else
                      (let s = upd_obj s p
                                 (\<lambda>x. x\<lparr>Children := Children x @ [ident (heap s child)]\<rparr>)
                       in seq (writeRecord s child) (\<lambda>s err.
                            (s, Return (Some child, err)))))))"

text \<open>
  \<^verbatim>\<open>removeID\<close>. The first loop stops at the first index that holds \<open>v\<close> and leaves
  \<open>i\<close> there (\<^verbatim>\<open>break\<close> skips the increment); the second loop goes on from the same
  \<open>i\<close>. The loops are recursions on the index.
\<close>

function removeID_first :: "ID list \<Rightarrow> ID \<Rightarrow> nat \<Rightarrow> nat \<times> int" where
  "removeID_first s v i =
     (if i < length s
      then (if s ! i = v then (i, int i) else removeID_first s v (i + 1))
      else (i, - 1))"
  by pat_completeness auto
termination
  by (relation "measure (\<lambda>(s, v, i). length s - i)") auto

declare removeID_first.simps [simp del]

function removeID_second :: "ID list \<Rightarrow> ID \<Rightarrow> nat \<Rightarrow> bool" where
  "removeID_second s v i =
     (if i < length s
      then (if s ! i = v then True else removeID_second s v (i + 1))
      else False)"
  by pat_completeness auto
termination
  by (relation "measure (\<lambda>(s, v, i). length s - i)") auto

declare removeID_second.simps [simp del]

definition removeID :: "ID list \<Rightarrow> ID \<Rightarrow> ID list \<times> error option" where
  "removeID s v =
     (case removeID_first s v 0 of (i, pos) \<Rightarrow>
        if removeID_second s v i then (s, Some DuplicitId)
        else if pos = - 1 then (s, Some IdNotFound)
        else (take (length s - 1) (s[nat pos := s ! (length s - 1)]), None))"

text \<open>
  A \<^verbatim>\<open>for ... range\<close> loop whose body returns an error to leave the function. Go
  fixes the length when the loop starts and reads each element from the backing array when
  its turn comes; the model takes the elements as they are when the loop starts. The two
  agree as long as nothing is written into the array below that length during the loop,
  and the only such write in the package is the swap at the end of \<^verbatim>\<open>removeID\<close>.
\<close>

fun for_range ::
  "(state \<Rightarrow> 'a \<Rightarrow> state \<times> error option result) \<Rightarrow> state \<Rightarrow> 'a list
     \<Rightarrow> state \<times> error option result" where
  "for_range body s [] = (s, Return None)"
| "for_range body s (x # xs) =
     seq (body s x) (\<lambda>s err.
       case err of Some e \<Rightarrow> (s, Return (Some e)) | None \<Rightarrow> for_range body s xs)"

text \<open>
  \<^verbatim>\<open>(*Fs).Unmount\<close> and \<^verbatim>\<open>(*Fs).deleteRecord\<close> call each other; the first argument
  bounds the depth of the calls. \<^verbatim>\<open>deleteRecord\<close> gets a pointer that is not nil. It
  removes files by their bare names, and it does not touch the map \<^verbatim>\<open>records\<close>.
\<close>

fun Unmount :: "nat \<Rightarrow> state \<Rightarrow> ID \<Rightarrow> ID \<Rightarrow> state \<times> error option result"
  and deleteRecord :: "nat \<Rightarrow> state \<Rightarrow> nat \<Rightarrow> state \<times> error option result" where
  "Unmount 0 s parentID childID = (s, OutOfFuel)"
| "Unmount (Suc n) s parentID childID =
     seq (fs_record s parentID) (\<lambda>s (parent, err).
       case err of
         Some e \<Rightarrow> (s, Return (Some e))
       | None \<Rightarrow>
           seq (lock s parent) (\<lambda>s _. with_defer (\<lambda>s. unlock s parent)
             (case parent of
                None \<Rightarrow> (s, Panic)
              | Some p \<Rightarrow>
                  (case removeID (Children (heap s p)) childID of (cs, err) \<Rightarrow>
                     let s = upd_obj s p (\<lambda>x. x\<lparr>Children := cs\<rparr>)
                     in (case err of
                           Some e \<Rightarrow> (s, Return (Some e))
                         | None \<Rightarrow>
                             seq (writeRecord s p) (\<lambda>s err.
                               case err of
                                 Some e \<Rightarrow> (s, Return (Some e))
                               | None \<Rightarrow>
                                   seq (fs_record s childID) (\<lambda>s (child, err).
                                     case err of
                                       Some e \<Rightarrow> (s, Return (Some e))
                                     | None \<Rightarrow>
                                         seq (lock s child) (\<lambda>s _.
                                           with_defer (\<lambda>s. unlock s child)
                                             (case child of
                                                None \<Rightarrow> (s, Panic)
                                              | Some c \<Rightarrow>
                                                  let s = upd_obj s c
                                                            (\<lambda>x. x\<lparr>refs := refs x - 1\<rparr>)
                                                  in if refs (heap s c) = 0
                                                     then deleteRecord n s c
                                                     else (s, Return None))))))))))"
| "deleteRecord 0 s r = (s, OutOfFuel)"
| "deleteRecord (Suc n) s r =
     seq (for_range (\<lambda>s u. Unmount n s (ident (heap s r)) u) s (Children (heap s r)))
       (\<lambda>s err.
          case err of
            Some e \<Rightarrow> (s, Return (Some e))
          | None \<Rightarrow>
              (case ReadDir s of
                 Inl e \<Rightarrow> (s, Return (Some e))
               | Inr entries \<Rightarrow>
                   for_range
                     (\<lambda>s e. if HasPrefix (fst e) (String (ident (heap s r)))
                             then (case Remove s (fst e) of
                                     Inl err \<Rightarrow> (s, Return (Some err))
                                   | Inr s' \<Rightarrow> (s', Return None))
                             else (s, Return None))
                     s entries))"

text \<open>\<^verbatim>\<open>(*Fs).GetChildren\<close>: no lock, and a nil dereference when the key is absent.\<close>

definition GetChildren :: "state \<Rightarrow> ID \<Rightarrow> state \<times> (ID list \<times> error option) result" where
  "GetChildren s u =
     (case records s u of
        None \<Rightarrow> (s, Panic)
      | Some r \<Rightarrow> (s, Return (Children (heap s r), None)))"

text \<open>
  \<^verbatim>\<open>(*Fs).Mkdir\<close> and \<^verbatim>\<open>(*Fs).Touch\<close>. Both end with \<^verbatim>\<open>return r.id, err\<close>, which
  panics when \<^verbatim>\<open>newRecord\<close> returned a nil pointer. \<^verbatim>\<open>Mkdir\<close> returns a nil error when
  \<^verbatim>\<open>record\<close> fails.
\<close>

definition Mkdir ::
  "state \<Rightarrow> ID \<Rightarrow> string \<Rightarrow> ID option \<Rightarrow> state \<times> (ID \<times> error option) result" where
  "Mkdir s parentID name rnd =
     seq (fs_record s parentID) (\<lambda>s (parent, err).
       case err of
         Some e \<Rightarrow> (s, Return (zeroID, None))
       | None \<Rightarrow>
           seq (newRecord s parent name True rnd) (\<lambda>s (r, err).
             case r of
               None \<Rightarrow> (s, Panic)
             | Some a \<Rightarrow> (s, Return (ident (heap s a), err))))"

definition Touch ::
  "state \<Rightarrow> ID \<Rightarrow> string \<Rightarrow> ID option \<Rightarrow> state \<times> (ID \<times> error option) result" where
  "Touch s parentID name rnd =
     seq (fs_record s parentID) (\<lambda>s (parent, err).
       case err of
         Some e \<Rightarrow> (s, Return (zeroID, Some e))
       | None \<Rightarrow>
           seq (newRecord s parent name False rnd) (\<lambda>s (r, err).
             case r of
               None \<Rightarrow> (s, Panic)
             | Some a \<Rightarrow> (s, Return (ident (heap s a), err))))"

text \<open>\<^verbatim>\<open>(*Fs).Mount\<close>.\<close>

definition Mount :: "state \<Rightarrow> ID \<Rightarrow> ID \<Rightarrow> state \<times> error option result" where
  "Mount s parent newChild =
     seq (fs_record s newChild) (\<lambda>s (child, err).
       case err of
         Some e \<Rightarrow> (s, Return (Some e))
       | None \<Rightarrow>
           seq (fs_record s parent) (\<lambda>s (rec, err).
             case err of
               Some e \<Rightarrow> (s, Return (Some e))
             | None \<Rightarrow>
                 seq (lock s rec) (\<lambda>s _. with_defer (\<lambda>s. unlock s rec)
                   (case rec of
                      None \<Rightarrow> (s, Panic)
                    | Some p \<Rightarrow>
                        if newChild \<in> set (Children (heap s p))
                        then (s, Return (Some ChildAlreadyExists))
                        else
                          (let s = upd_obj s p (\<lambda>x. x\<lparr>Children := Children x @ [newChild]\<rparr>)
                           in seq (lock s child) (\<lambda>s _.
                                case child of
                                  None \<Rightarrow> (s, Panic)
                                | Some c \<Rightarrow>
                                    (let s = upd_obj s c (\<lambda>x. x\<lparr>refs := refs x + 1\<rparr>)
                                     in seq (unlock s child) (\<lambda>s _. writeRecord s p))))))))"

subsection \<open>Loading\<close>

text \<open>
  \<^verbatim>\<open>(*ID).UnmarshalJSON\<close> on every element of \<^verbatim>\<open>children\<close>, and the decoding of a
  file's contents into the exported fields of a record.
\<close>

fun parse_children :: "string list \<Rightarrow> error + ID list" where
  "parse_children [] = Inr []"
| "parse_children (c # cs) =
     (case Parse c of
        Inl e \<Rightarrow> Inl e
      | Inr u \<Rightarrow> (case parse_children cs of Inl e \<Rightarrow> Inl e | Inr us \<Rightarrow> Inr (u # us)))"

definition Decode :: "content \<Rightarrow> record_obj \<Rightarrow> error + record_obj" where
  "Decode c rec =
     (case c of
        Opaque \<Rightarrow> Inl JsonDecodeErr
      | Doc children is_dir name \<Rightarrow>
          (case parse_children children of
             Inl e \<Rightarrow> Inl JsonDecodeErr
           | Inr us \<Rightarrow> Inr (rec\<lparr>Children := us, IsDir := is_dir, Name := name\<rparr>)))"

text \<open>The first loop of \<^verbatim>\<open>loadRecords\<close>, with the slice \<^verbatim>\<open>recordFiles\<close>.\<close>

fun scan_entries :: "(string \<times> dirent) list \<Rightarrow> string list \<Rightarrow> error + string list" where
  "scan_entries [] recordFiles = Inr recordFiles"
| "scan_entries ((name, e) # es) recordFiles =
     (if e = Dir then Inl GarbageDirectory
      else if \<not> onlyFileInFsRootPattern name then Inl (GarbageFile name)
      else if length name = 22 then scan_entries es (recordFiles @ [name])
      else scan_entries es recordFiles)"

text \<open>The second loop: the record objects come out of \<^verbatim>\<open>new(record)\<close> and the decoder.\<close>

fun load_files :: "state \<Rightarrow> string list \<Rightarrow> state \<times> error option" where
  "load_files s [] = (s, None)"
| "load_files s (recordName # rest) =
     (case Parse recordName of
        Inl err \<Rightarrow> (s, Some err)
      | Inr u \<Rightarrow>
          (case Open s recordName of
             Inl err \<Rightarrow> (s, Some err)
           | Inr c \<Rightarrow>
               (let rec = next_addr s;
                    s = s\<lparr>next_addr := rec + 1, heap := (heap s)(rec := new_record)\<rparr>
                in case Decode c (heap s rec) of
                     Inl err \<Rightarrow> (s, Some err)
                   | Inr r \<Rightarrow>
                       load_files
                         (s\<lparr>heap := (heap s)(rec := r), records := (records s)(u \<mapsto> rec)\<rparr>)
                         rest)))"

definition loadRecords :: "state \<Rightarrow> state \<times> error option" where
  "loadRecords s =
     (case ReadDir s of
        Inl err \<Rightarrow> (s, Some err)
      | Inr entries \<Rightarrow>
          (case scan_entries entries [] of
             Inl err \<Rightarrow> (s, Some err)
           | Inr recordFiles \<Rightarrow> load_files s recordFiles))"

definition checkLoadedRecordsAreSane :: "(ID \<rightharpoonup> nat) \<Rightarrow> error option" where
  "checkLoadedRecordsAreSane m = None"

text \<open>
  \<^verbatim>\<open>NewFs\<close>: a new \<^verbatim>\<open>Fs\<close> object with an empty map and an unlocked lock, then the
  loading. The Go function returns the pointer to the object together with the error; here
  the object is part of the state that comes back.
\<close>

definition NewFs :: "ID \<Rightarrow> string \<Rightarrow> state \<Rightarrow> state \<times> error option" where
  "NewFs rootID path s =
     (let s = s\<lparr>lock_readers := 0, lock_writer := False, records := Map.empty,
                root := rootID, basePath := path\<rparr>
      in case loadRecords s of
           (s, Some err) \<Rightarrow> (s, Some err)
         | (s, None) \<Rightarrow>
             if records s rootID = None then (s, Some RootNotFound)
             else (s, checkLoadedRecordsAreSane (records s)))"

subsection \<open>Example stores\<close>

text \<open>Five identifiers; their text forms end in 2, 3, 4, 5 and 6.\<close>

definition id1 :: ID where "id1 = [0, 0, 0, 0, 0, 0, 0, 0, 0, 0, 0, 0, 0, 0, 0, 1]"
definition id2 :: ID where "id2 = [0, 0, 0, 0, 0, 0, 0, 0, 0, 0, 0, 0, 0, 0, 0, 2]"
definition id3 :: ID where "id3 = [0, 0, 0, 0, 0, 0, 0, 0, 0, 0, 0, 0, 0, 0, 0, 3]"
definition id4 :: ID where "id4 = [0, 0, 0, 0, 0, 0, 0, 0, 0, 0, 0, 0, 0, 0, 0, 4]"
definition id5 :: ID where "id5 = [0, 0, 0, 0, 0, 0, 0, 0, 0, 0, 0, 0, 0, 0, 0, 5]"

text \<open>
  A process that has not created its \<^verbatim>\<open>Fs\<close> yet, and a storage root with the record
  of a root directory, the record of one file in it, and that file's \<^verbatim>\<open>data\<close> section.
\<close>

definition disk0 :: state where
  "disk0 =
     \<lparr>lock_readers = 0, lock_writer = False, records = Map.empty, root = zeroID,
      basePath = [], heap = (\<lambda>_. new_record), next_addr = 0, base_ok = True,
      base_dir =
        [(''1111111111111111111112'', File (Doc [''1111111111111111111113''] True ''root'')),
         (''1111111111111111111113'', File (Doc [] False ''a.txt'')),
         (''1111111111111111111113.data'', File Opaque)],
      work_dir = [], cwd_is_base = False\<rparr>"

text \<open>The store that \<^verbatim>\<open>NewFs\<close> makes of it, with the first identifier as the root.\<close>

definition loaded :: state where
  "loaded = fst (NewFs id1 ''/srv/archiiv/files'' disk0)"

text \<open>The same storage root with one more file, whose name fits neither pattern.\<close>

definition disk_garbage :: state where
  "disk_garbage = disk0\<lparr>base_dir := base_dir disk0 @ [(''readme.txt'', File Opaque)]\<rparr>"

text \<open>
  A store as the specification describes one in mid-life, which no run of the code
  produces: a root with two directories, a directory mounted under both of them
  (reference count 2), and a file under that directory only (reference count 1), with
  a \<^verbatim>\<open>data\<close> section.
\<close>

definition linked_heap :: "nat \<Rightarrow> record_obj" where
  "linked_heap =
     (\<lambda>_. new_record)
       (0 := \<lparr>Children = [id2, id3], IsDir = True, Name = ''root'', ident = id1, refs = 1,
              mutex = False\<rparr>,
        1 := \<lparr>Children = [id4], IsDir = True, Name = ''p1'', ident = id2, refs = 1,
              mutex = False\<rparr>,
        2 := \<lparr>Children = [id4], IsDir = True, Name = ''p2'', ident = id3, refs = 1,
              mutex = False\<rparr>,
        3 := \<lparr>Children = [id5], IsDir = True, Name = ''shared'', ident = id4, refs = 2,
              mutex = False\<rparr>,
        4 := \<lparr>Children = [], IsDir = False, Name = ''a.jpg'', ident = id5, refs = 1,
              mutex = False\<rparr>)"

definition linked :: state where
  "linked =
     \<lparr>lock_readers = 0, lock_writer = False,
      records = [id1 \<mapsto> 0, id2 \<mapsto> 1, id3 \<mapsto> 2, id4 \<mapsto> 3, id5 \<mapsto> 4],
      root = id1, basePath = ''/srv/archiiv/files'', heap = linked_heap, next_addr = 5,
      base_ok = True,
      base_dir =
        [(''1111111111111111111112'',
            File (Doc [''1111111111111111111113'', ''1111111111111111111114''] True ''root'')),
         (''1111111111111111111113'', File (Doc [''1111111111111111111115''] True ''p1'')),
         (''1111111111111111111114'', File (Doc [''1111111111111111111115''] True ''p2'')),
         (''1111111111111111111115'', File (Doc [''1111111111111111111116''] True ''shared'')),
         (''1111111111111111111116'', File (Doc [] False ''a.jpg'')),
         (''1111111111111111111116.data'', File Opaque)],
      work_dir = [], cwd_is_base = False\<rparr>"


subsection \<open>Parents of a record\<close>

text \<open>
  The identifiers in the index whose record lists \<open>u\<close> among its children: the
  parents that a reference count is meant to count.
\<close>

definition parents_of :: "state \<Rightarrow> ID \<Rightarrow> ID set" where
  "parents_of s u = {p. \<exists>b. records s p = Some b \<and> u \<in> set (Children (heap s b))}"

text \<open>
  What holds of the index while \<^verbatim>\<open>loadRecords\<close> fills it from the directory
  \<open>dir\<close>: every record in it is an allocated object with reference count 0 whose
  children are the decoded children of a record document in \<open>dir\<close>, under a file name
  that parses to the record's key.
\<close>

definition load_inv :: "(string \<times> dirent) list \<Rightarrow> state \<Rightarrow> bool" where
  "load_inv dir s =
     (\<forall>u a. records s u = Some a \<longrightarrow>
        a < next_addr s \<and> refs (heap s a) = 0 \<and>
        (\<exists>n cs d nm. Parse n = Inr u \<and> (n, File (Doc cs d nm)) \<in> set dir \<and>
           parse_children cs = Inr (Children (heap s a))))"

section \<open>Properties of the identifier codec\<close>

lemma distinct_b58table: "distinct b58table"
  by (simp add: b58table_def)

lemma length_b58table: "length b58table = 58"
  by (simp add: b58table_def)

lemma IndexByte_nth: "distinct xs \<Longrightarrow> i < length xs \<Longrightarrow> IndexByte xs (xs ! i) = Some i"
proof (induction xs arbitrary: i)
  case Nil then show ?case by simp
next
  case (Cons x xs)
  show ?case
  proof (cases i)
    case 0 then show ?thesis by simp
  next
    case (Suc j)
    with Cons.prems have "xs ! j \<in> set xs" "x \<notin> set xs" by auto
    then have "x \<noteq> xs ! j" by auto
    with Cons Suc show ?thesis by simp
  qed
qed

lemma IndexByte_Some: "IndexByte xs c = Some i \<Longrightarrow> i < length xs \<and> xs ! i = c"
  by (induction xs arbitrary: i) (auto split: if_splits)

lemma IndexByte_None: "IndexByte xs c = None \<longleftrightarrow> c \<notin> set xs"
  by (induction xs) auto

lemma IndexByte_b58table: "i < 58 \<Longrightarrow> IndexByte b58table (b58table ! i) = Some i"
  by (rule IndexByte_nth) (simp_all add: distinct_b58table length_b58table)

lemma encode_loop_append: "encode_loop n e = e @ encode_loop n []"
proof (induction n arbitrary: e rule: less_induct)
  case (less n)
  show ?case
  proof (cases "n = 0")
    case True then show ?thesis by (simp add: encode_loop.simps)
  next
    case False
    then have lt: "n div 58 < n" by simp
    have "encode_loop n e = encode_loop (n div 58) (e @ [b58table ! (n mod 58)])"
      using False by (subst encode_loop.simps) simp
    also have "\<dots> = (e @ [b58table ! (n mod 58)]) @ encode_loop (n div 58) []"
      by (rule less [OF lt])
    finally have a: "encode_loop n e = e @ [b58table ! (n mod 58)] @ encode_loop (n div 58) []" by simp
    have "encode_loop n [] = encode_loop (n div 58) ([] @ [b58table ! (n mod 58)])"
      using False by (subst encode_loop.simps) simp
    also have "\<dots> = ([] @ [b58table ! (n mod 58)]) @ encode_loop (n div 58) []"
      by (rule less [OF lt])
    finally show ?thesis using a by simp
  qed
qed

lemma encode_loop_step:
  "n \<noteq> 0 \<Longrightarrow> encode_loop n [] = b58table ! (n mod 58) # encode_loop (n div 58) []"
  using encode_loop_append [of "n div 58" "[b58table ! (n mod 58)]"]
  by (subst encode_loop.simps) simp

lemma length_encode_loop: "n < 58 ^ k \<Longrightarrow> length (encode_loop n []) \<le> k"
proof (induction k arbitrary: n)
  case 0 then show ?case by (simp add: encode_loop.simps)
next
  case (Suc k)
  show ?case
  proof (cases "n = 0")
    case True then show ?thesis by (simp add: encode_loop.simps)
  next
    case False
    from Suc.prems have "n div 58 < 58 ^ k"
      by (simp add: less_mult_imp_div_less mult.commute)
    from Suc.IH [OF this] show ?thesis using False by (simp add: encode_loop_step)
  qed
qed

lemma set_encode_loop: "set (encode_loop n []) \<subseteq> set b58table"
proof (induction n rule: less_induct)
  case (less n)
  show ?case
  proof (cases "n = 0")
    case True then show ?thesis by (simp add: encode_loop.simps)
  next
    case False
    then have "n div 58 < n" by simp
    from less [OF this] have "set (encode_loop (n div 58) []) \<subseteq> set b58table" .
    moreover have "b58table ! (n mod 58) \<in> set b58table"
      by (rule nth_mem) (simp add: length_b58table)
    ultimately show ?thesis using False by (simp add: encode_loop_step)
  qed
qed

lemma pad_loop_eq: "pad_loop e = e @ replicate (strlen - length e) (b58table ! 0)"
proof (induction e rule: pad_loop.induct)
  case (1 e)
  show ?case
  proof (cases "length e < strlen")
    case True
    then have "strlen - length e = Suc (strlen - Suc (length e))" by simp
    with 1 [OF True] True show ?thesis
      by (subst pad_loop.simps) (simp add: replicate_append_same)
  next
    case False then show ?thesis by (subst pad_loop.simps) simp
  qed
qed

lemma parse_loop_append:
  "parse_loop (xs @ ys) acc =
     (case parse_loop xs acc of Inl e \<Rightarrow> Inl e | Inr r \<Rightarrow> parse_loop ys r)"
  by (induction xs arbitrary: acc) (auto split: option.splits)

lemma parse_loop_zeros: "parse_loop (replicate k (b58table ! 0)) 0 = Inr 0"
proof (induction k)
  case 0 then show ?case by simp
next
  case (Suc k)
  have "IndexByte b58table (b58table ! 0) = Some 0"
    by (rule IndexByte_b58table) simp
  with Suc show ?case by simp
qed

lemma parse_loop_rev_encode: "parse_loop (rev (encode_loop n [])) 0 = Inr n"
proof (induction n rule: less_induct)
  case (less n)
  show ?case
  proof (cases "n = 0")
    case True then show ?thesis by (simp add: encode_loop.simps)
  next
    case False
    then have "n div 58 < n" by simp
    from less [OF this] have ih: "parse_loop (rev (encode_loop (n div 58) [])) 0 = Inr (n div 58)" .
    have idx: "IndexByte b58table (b58table ! (n mod 58)) = Some (n mod 58)"
      by (rule IndexByte_b58table) simp
    show ?thesis using False ih idx
      by (simp add: encode_loop_step parse_loop_append)
  qed
qed

lemma parse_loop_String: "parse_loop (String v) 0 = Inr (SetBytes v)"
  by (simp add: String_def pad_loop_eq parse_loop_append parse_loop_zeros parse_loop_rev_encode)

lemma SetBytes_snoc: "SetBytes (bs @ [b]) = SetBytes bs * 256 + unat b"
  by (simp add: SetBytes_def)

lemma unat_byte_less: "unat (b :: byte) < 256"
  using unsigned_less [of b, where ?'a = nat] by simp

lemma SetBytes_less: "SetBytes bs < 256 ^ length bs"
proof (induction bs rule: rev_induct)
  case Nil then show ?case by (simp add: SetBytes_def)
next
  case (snoc b bs)
  have "SetBytes bs * 256 + unat b < (SetBytes bs + 1) * 256"
    using unat_byte_less [of b] by simp
  also have "\<dots> \<le> 256 ^ length bs * 256"
    using snoc by (intro mult_le_mono1) simp
  finally show ?case by (simp add: SetBytes_snoc)
qed

lemma Bytes_SetBytes:
  "length (Bytes (SetBytes bs)) \<le> length bs \<and>
   replicate (length bs - length (Bytes (SetBytes bs))) 0 @ Bytes (SetBytes bs) = bs"
proof (induction bs rule: rev_induct)
  case Nil then show ?case by (simp add: SetBytes_def Bytes.simps)
next
  case (snoc b bs)
  let ?n = "SetBytes bs"
  let ?m = "?n * 256 + unat b"
  show ?case
  proof (cases "?m = 0")
    case True
    then have n0: "?n = 0" and b0: "b = 0" by (simp_all add: unat_eq_0)
    from snoc n0 have "replicate (length bs) 0 = bs" by (simp add: Bytes.simps)
    then have "replicate (Suc (length bs)) 0 = bs @ [0]"
      by (metis replicate_Suc replicate_append_same)
    with True b0 show ?thesis by (simp add: SetBytes_snoc Bytes.simps)
  next
    case False
    have d: "?m div 256 = ?n" using unat_byte_less [of b] by simp
    have m: "?m mod 256 = unat b" using unat_byte_less [of b] by simp
    have "Bytes ?m = Bytes ?n @ [b]"
      using False by (subst Bytes.simps) (simp only: d m if_False of_nat_unat ucast_id)
    with snoc show ?thesis by (simp add: SetBytes_snoc)
  qed
qed

lemma bound_128: "(256::nat) ^ 16 < 58 ^ 22"
  by simp

lemma length_String: "length v = 16 \<Longrightarrow> length (String v) = 22"
proof -
  assume l: "length v = 16"
  have "SetBytes v < 256 ^ 16" using SetBytes_less [of v] l by simp
  then have "SetBytes v < 58 ^ 22" using bound_128 by linarith
  then have "length (encode_loop (SetBytes v) []) \<le> 22" by (rule length_encode_loop)
  then show ?thesis by (simp add: String_def pad_loop_eq strlen_def)
qed

lemma set_String: "set (String v) \<subseteq> set b58table"
proof -
  have "b58table ! 0 \<in> set b58table" by (rule nth_mem) (simp add: length_b58table)
  then show ?thesis using set_encode_loop [of "SetBytes v"]
    by (auto simp: String_def pad_loop_eq)
qed

lemma copy_full: "length src = length dst \<Longrightarrow> copy dst src = src"
  by (simp add: copy_def)

lemma Parse_String:
  assumes "length v = 16"
  shows "Parse (String v) = Inr v"
proof -
  from Bytes_SetBytes [of v] assms
  have le: "length (Bytes (SetBytes v)) \<le> 16"
    and pad: "replicate (16 - length (Bytes (SetBytes v))) 0 @ Bytes (SetBytes v) = v"
    by simp_all
  show ?thesis
  proof (cases "length (Bytes (SetBytes v)) < 16")
    case True
    then show ?thesis using pad assms
      by (simp add: Parse_def length_String [OF assms] strlen_def parse_loop_String
          Let_def copy_full zeroID_def)
  next
    case False
    with le pad have "Bytes (SetBytes v) = v" by simp
    then show ?thesis using assms False
      by (simp add: Parse_def length_String [OF assms] strlen_def parse_loop_String
          Let_def copy_full zeroID_def)
  qed
qed

lemma parse_loop_ok:
  "set s \<subseteq> set b58table \<Longrightarrow> \<exists>n. parse_loop s acc = Inr n \<and> n < (acc + 1) * 58 ^ length s"
proof (induction s arbitrary: acc)
  case Nil then show ?case by simp
next
  case (Cons c s)
  then have "c \<in> set b58table" by simp
  then obtain idx where idx: "IndexByte b58table c = Some idx"
    using IndexByte_None [of b58table c] by (cases "IndexByte b58table c") auto
  then have "idx < 58" using IndexByte_Some [OF idx] by (simp add: length_b58table)
  from Cons have "set s \<subseteq> set b58table" by simp
  from Cons.IH [OF this, of "acc * 58 + idx"]
  obtain n where n: "parse_loop s (acc * 58 + idx) = Inr n"
    and b: "n < (acc * 58 + idx + 1) * 58 ^ length s" by blast
  have "(acc * 58 + idx + 1) * 58 ^ length s \<le> ((acc + 1) * 58) * 58 ^ length s"
    using \<open>idx < 58\<close> by (intro mult_le_mono1) simp
  with b have "n < ((acc + 1) * 58) * 58 ^ length s" by (rule order_less_le_trans)
  also have "((acc + 1) * 58) * 58 ^ length s = (acc + 1) * 58 ^ length (c # s)" by (simp add: algebra_simps)
  finally show ?case using n idx by simp
qed

lemma Bytes_step: "n \<noteq> 0 \<Longrightarrow> Bytes n = Bytes (n div 256) @ [of_nat (n mod 256)]"
  by (subst Bytes.simps) simp

lemma length_Bytes_le: "n < 256 ^ k \<Longrightarrow> length (Bytes n) \<le> k"
proof (induction k arbitrary: n)
  case 0 then show ?case by (simp add: Bytes.simps)
next
  case (Suc k)
  show ?case
  proof (cases "n = 0")
    case True then show ?thesis by (simp add: Bytes.simps)
  next
    case False
    from Suc.prems have "n div 256 < 256 ^ k"
      by (simp add: less_mult_imp_div_less mult.commute)
    from Suc.IH [OF this] show ?thesis using False by (simp add: Bytes_step)
  qed
qed

lemma length_Bytes_ge: "256 ^ k \<le> n \<Longrightarrow> k < length (Bytes n)"
proof (induction k arbitrary: n)
  case 0 then show ?case by (simp add: Bytes_step)
next
  case (Suc k)
  have "0 < (256::nat) ^ Suc k" by simp
  with Suc.prems have "n \<noteq> 0" by linarith
  from Suc.prems have "256 ^ k \<le> n div 256"
    by (simp add: less_eq_div_iff_mult_less_eq mult.commute)
  from Suc.IH [OF this] show ?case using \<open>n \<noteq> 0\<close> by (simp add: Bytes_step)
qed

lemma SetBytes_Bytes: "SetBytes (Bytes n) = n"
proof (induction n rule: less_induct)
  case (less n)
  show ?case
  proof (cases "n = 0")
    case True then show ?thesis by (simp add: Bytes.simps SetBytes_def)
  next
    case False
    then have "n div 256 < n" by simp
    from less [OF this] have "SetBytes (Bytes (n div 256)) = n div 256" .
    moreover have "unat (of_nat (n mod 256) :: byte) = n mod 256"
      by (simp add: unat_of_nat)
    ultimately show ?thesis using False by (simp add: Bytes_step SetBytes_snoc)
  qed
qed

lemma SetBytes_zeros: "SetBytes (replicate k 0 @ bs) = SetBytes bs"
  by (induction k) (simp_all add: SetBytes_def)

lemma bound_136: "(58::nat) ^ 22 < 256 ^ 17"
  by simp

lemma Parse_accepts:
  assumes len: "length s = 22" and alph: "set s \<subseteq> set b58table"
  shows "\<exists>n v. parse_loop s 0 = Inr n \<and> Parse s = Inr v \<and> length v = 16 \<and>
           (n < 2 ^ 128 \<longrightarrow> SetBytes v = n) \<and>
           (2 ^ 128 \<le> n \<longrightarrow> SetBytes v = n div 256 \<and> String v \<noteq> s)"
proof -
  from parse_loop_ok [OF alph, of 0] len
  obtain n where n: "parse_loop s 0 = Inr n" and b: "n < 58 ^ 22" by auto
  show ?thesis
  proof (cases "n < 2 ^ 128")
    case True
    then have "n < 256 ^ 16" by simp
    then have le: "length (Bytes n) \<le> 16" by (rule length_Bytes_le)
    let ?v = "replicate (16 - length (Bytes n)) 0 @ Bytes n"
    have lv: "length ?v = 16" using le by simp
    have "Parse s = Inr ?v"
    proof (cases "length (Bytes n) < 16")
      case True
      then show ?thesis using lv
        by (simp add: Parse_def len strlen_def n Let_def copy_full zeroID_def)
    next
      case False
      with le have "length (Bytes n) = 16" by simp
      then show ?thesis
        by (simp add: Parse_def len strlen_def n Let_def copy_full zeroID_def)
    qed
    moreover have "SetBytes ?v = n" by (simp add: SetBytes_zeros SetBytes_Bytes)
    ultimately show ?thesis using n lv True by auto
  next
    case False
    then have ge: "256 ^ 16 \<le> n" by simp
    then have "n \<noteq> 0" by auto
    from b bound_136 have "n < 256 ^ 17" by linarith
    then have "length (Bytes n) \<le> 17" by (rule length_Bytes_le)
    with length_Bytes_ge [OF ge] have l17: "length (Bytes n) = 17" by simp
    have st: "Bytes n = Bytes (n div 256) @ [of_nat (n mod 256)]"
      using \<open>n \<noteq> 0\<close> by (rule Bytes_step)
    with l17 have l16: "length (Bytes (n div 256)) = 16" by simp
    have "copy zeroID (Bytes n) = Bytes (n div 256)"
      using l16 by (simp add: copy_def zeroID_def st)
    then have P: "Parse s = Inr (Bytes (n div 256))"
      using l17 by (simp add: Parse_def len strlen_def n Let_def)
    have S: "SetBytes (Bytes (n div 256)) = n div 256" by (rule SetBytes_Bytes)
    have "String (Bytes (n div 256)) \<noteq> s"
    proof
      assume "String (Bytes (n div 256)) = s"
      then have "parse_loop s 0 = Inr (SetBytes (Bytes (n div 256)))"
        using parse_loop_String [of "Bytes (n div 256)"] by simp
      with n S have "n = n div 256" by simp
      with \<open>n \<noteq> 0\<close> show False by simp
    qed
    with P S l16 n False show ?thesis by auto
  qed
qed

lemma IndexByte_b58_z: "IndexByte b58table CHR ''z'' = Some 57"
  by code_simp

lemma IndexByte_b58_y: "IndexByte b58table CHR ''y'' = Some 56"
  by code_simp

lemma parse_loop_z22: "parse_loop ''zzzzzzzzzzzzzzzzzzzzzz'' 0 = Inr 624332378391008467754527498760580235263"
  by (simp add: IndexByte_b58_z)

lemma parse_loop_z21y: "parse_loop ''zzzzzzzzzzzzzzzzzzzzzy'' 0 = Inr 624332378391008467754527498760580235262"
  by (simp add: IndexByte_b58_z IndexByte_b58_y)

lemma Parse_z22:
  "Parse ''zzzzzzzzzzzzzzzzzzzzzz'' = Inr [1, 213, 178, 10, 210, 210, 51, 11, 16, 167, 187, 130, 185, 246, 63, 255]"
  by (simp add: Parse_def strlen_def parse_loop_z22 Bytes.simps copy_def zeroID_def
      del: parse_loop.simps)

lemma Parse_z21y:
  "Parse ''zzzzzzzzzzzzzzzzzzzzzy'' = Inr [1, 213, 178, 10, 210, 210, 51, 11, 16, 167, 187, 130, 185, 246, 63, 255]"
  by (simp add: Parse_def strlen_def parse_loop_z21y Bytes.simps copy_def zeroID_def
      del: parse_loop.simps)

lemma set_z: "set ''zzzzzzzzzzzzzzzzzzzzzz'' \<subseteq> set b58table"
  by (simp add: b58table_def)

text \<open>
  Claim C2. For every 16-byte identifier \<open>v\<close> (the all-zero and the all-one value
  included), \<open>String v\<close> has exactly 22 characters, all of them symbols of the
  58-symbol alphabet, and \<open>Parse (String v)\<close> succeeds and gives back \<open>v\<close>.
\<close>

theorem Parse_String_roundtrip:
  assumes "length v = 16"
  shows "length (String v) = 22 \<and> set (String v) \<subseteq> set b58table \<and> Parse (String v) = Inr v"
  using assms length_String [of v] set_String [of v] Parse_String [of v] by simp

theorem Parse_String_roundtrip_witness:
  "length (replicate 16 (255 :: byte)) = 16 \<and>
   length (String (replicate 16 255)) = 22 \<and>
   set (String (replicate 16 255)) \<subseteq> set b58table \<and>
   Parse (String (replicate 16 255)) = Inr (replicate 16 255) \<and>
   length zeroID = 16 \<and>
   length (String zeroID) = 22 \<and>
   set (String zeroID) \<subseteq> set b58table \<and>
   Parse (String zeroID) = Inr zeroID"
  using Parse_String_roundtrip [of "replicate 16 255"] Parse_String_roundtrip [of zeroID]
  by (simp add: zeroID_def)

text \<open>
  Claim C10. \<open>Parse\<close> accepts every 22-character string over the alphabet. When the
  decoded integer \<open>n\<close> is below \<open>2 ^ 128\<close> the identifier holds \<open>n\<close>; when it is
  \<open>2 ^ 128\<close> or more (such strings exist) the 17th byte is dropped without an error, the
  identifier holds \<open>n div 256\<close> and printing it does not give the string back. So two
  different accepted strings parse to the same identifier, and \<open>String\<close> after
  \<open>Parse\<close> is not the identity on accepted strings.
\<close>

theorem Parse_not_injective:
  "(\<forall>s. length s = 22 \<and> set s \<subseteq> set b58table \<longrightarrow>
      (\<exists>n v. parse_loop s 0 = Inr n \<and> Parse s = Inr v \<and> length v = 16 \<and>
         (n < 2 ^ 128 \<longrightarrow> SetBytes v = n) \<and>
         (2 ^ 128 \<le> n \<longrightarrow> SetBytes v = n div 256 \<and> String v \<noteq> s)))
   \<and> (\<exists>s n. length s = 22 \<and> set s \<subseteq> set b58table \<and> parse_loop s 0 = Inr n \<and> 2 ^ 128 \<le> n)
   \<and> (\<exists>s1 s2 v. s1 \<noteq> s2 \<and> Parse s1 = Inr v \<and> Parse s2 = Inr v)
   \<and> (\<exists>s v. Parse s = Inr v \<and> String v \<noteq> s)"
proof (intro conjI)
  show "\<forall>s. length s = 22 \<and> set s \<subseteq> set b58table \<longrightarrow>
      (\<exists>n v. parse_loop s 0 = Inr n \<and> Parse s = Inr v \<and> length v = 16 \<and>
         (n < 2 ^ 128 \<longrightarrow> SetBytes v = n) \<and>
         (2 ^ 128 \<le> n \<longrightarrow> SetBytes v = n div 256 \<and> String v \<noteq> s))"
    using Parse_accepts by blast
  have big: "(2::nat) ^ 128 \<le> 624332378391008467754527498760580235263" by simp
  show "\<exists>s n. length s = 22 \<and> set s \<subseteq> set b58table \<and> parse_loop s 0 = Inr n \<and> 2 ^ 128 \<le> n"
    using parse_loop_z22 set_z big
    by (intro exI [of _ "''zzzzzzzzzzzzzzzzzzzzzz''"] exI [of _ "624332378391008467754527498760580235263"]) simp
  show "\<exists>s1 s2 v. s1 \<noteq> s2 \<and> Parse s1 = Inr v \<and> Parse s2 = Inr v"
    using Parse_z22 Parse_z21y
    by (intro exI [of _ "''zzzzzzzzzzzzzzzzzzzzzz''"] exI [of _ "''zzzzzzzzzzzzzzzzzzzzzy''"]) simp
  from Parse_accepts [OF _ set_z] parse_loop_z22 big
  show "\<exists>s v. Parse s = Inr v \<and> String v \<noteq> s"
    by (intro exI [of _ "''zzzzzzzzzzzzzzzzzzzzzz''"]) auto
qed

theorem Parse_not_injective_witness:
  "length ''zzzzzzzzzzzzzzzzzzzzzz'' = 22 \<and> set ''zzzzzzzzzzzzzzzzzzzzzz'' \<subseteq> set b58table \<and>
   (\<exists>v. Parse ''zzzzzzzzzzzzzzzzzzzzzz'' = Inr v \<and> length v = 16
        \<and> SetBytes v = 624332378391008467754527498760580235263 div 256
        \<and> String v \<noteq> ''zzzzzzzzzzzzzzzzzzzzzz'')"
proof -
  have big: "(2::nat) ^ 128 \<le> 624332378391008467754527498760580235263" by simp
  have l: "length ''zzzzzzzzzzzzzzzzzzzzzz'' = 22" by simp
  from Parse_not_injective have
    "length ''zzzzzzzzzzzzzzzzzzzzzz'' = 22 \<and> set ''zzzzzzzzzzzzzzzzzzzzzz'' \<subseteq> set b58table \<longrightarrow>
      (\<exists>n v. parse_loop ''zzzzzzzzzzzzzzzzzzzzzz'' 0 = Inr n \<and> Parse ''zzzzzzzzzzzzzzzzzzzzzz'' = Inr v \<and> length v = 16 \<and>
         (n < 2 ^ 128 \<longrightarrow> SetBytes v = n) \<and>
         (2 ^ 128 \<le> n \<longrightarrow> SetBytes v = n div 256 \<and> String v \<noteq> ''zzzzzzzzzzzzzzzzzzzzzz''))"
    by blast
  with l set_z parse_loop_z22 big show ?thesis by auto
qed

section \<open>Properties of the record store\<close>

text \<open>
  \<^verbatim>\<open>(*Fs).record\<close> never hands a record back. Its deferred \<^verbatim>\<open>Unlock\<close> meets a
  lock that is held for reading only, which ends the process; and the body, taken alone,
  answers "id doesn't exist" for an identifier that is in the map and a nil pointer with no
  error for one that is not. The four operations that start with this call end the same
  way, whatever their arguments.
\<close>

subsection \<open>The lookup in the index\<close>

lemma record_body_present:
  "records s u = Some a \<Longrightarrow> record_body s u = (None, Some IdDoesntExist)"
  by (simp add: record_body_def)

lemma record_body_absent:
  "records s u = None \<Longrightarrow> record_body s u = (None, None)"
  by (simp add: record_body_def)

lemma fs_record_eq:
  "fs_record s u =
     (if lock_writer s then (s, Blocked)
      else (s\<lparr>lock_readers := lock_readers s + 1\<rparr>, Fatal))"
  by (simp add: fs_record_def RLock_def Unlock_def seq_def with_defer_def)

lemma Touch_eq:
  "Touch s parentID name rnd =
     (if lock_writer s then (s, Blocked)
      else (s\<lparr>lock_readers := lock_readers s + 1\<rparr>, Fatal))"
  by (simp add: Touch_def fs_record_eq seq_def)

lemma Mkdir_eq:
  "Mkdir s parentID name rnd =
     (if lock_writer s then (s, Blocked)
      else (s\<lparr>lock_readers := lock_readers s + 1\<rparr>, Fatal))"
  by (simp add: Mkdir_def fs_record_eq seq_def)

lemma Mount_eq:
  "Mount s parent newChild =
     (if lock_writer s then (s, Blocked)
      else (s\<lparr>lock_readers := lock_readers s + 1\<rparr>, Fatal))"
  by (simp add: Mount_def fs_record_eq seq_def)

lemma Unmount_eq:
  "Unmount (Suc n) s parentID childID =
     (if lock_writer s then (s, Blocked)
      else (s\<lparr>lock_readers := lock_readers s + 1\<rparr>, Fatal))"
  by (simp add: fs_record_eq seq_def)

subsection \<open>removeID\<close>

lemma removeID_first_absent:
  "v \<notin> set (drop i s) \<Longrightarrow> removeID_first s v i = (max i (length s), - 1)"
proof (induction s v i rule: removeID_first.induct)
  case (1 s v i)
  show ?case
  proof (cases "i < length s")
    case True
    then have d: "drop i s = s ! i # drop (Suc i) s" by (simp add: Cons_nth_drop_Suc)
    with 1 True show ?thesis
      by (subst removeID_first.simps) (auto simp: max_def)
  next
    case False
    then show ?thesis by (subst removeID_first.simps) (simp add: max_def)
  qed
qed

lemma removeID_first_present:
  "v \<in> set (drop i s) \<Longrightarrow>
     \<exists>k. removeID_first s v i = (k, int k) \<and> k < length s \<and> s ! k = v"
proof (induction s v i rule: removeID_first.induct)
  case (1 s v i)
  from "1.prems" have lt: "i < length s" by (cases "i < length s") auto
  then have d: "drop i s = s ! i # drop (Suc i) s" by (simp add: Cons_nth_drop_Suc)
  show ?case
  proof (cases "s ! i = v")
    case True
    with lt show ?thesis by (subst removeID_first.simps) simp
  next
    case False
    with "1.prems" d have "v \<in> set (drop (i + 1) s)" by auto
    from "1.IH" [OF lt False this] False lt show ?thesis
      by (subst removeID_first.simps) simp
  qed
qed

lemma removeID_second_hit: "k < length s \<Longrightarrow> s ! k = v \<Longrightarrow> removeID_second s v k"
  by (subst removeID_second.simps) simp

lemma removeID_second_end: "length s \<le> k \<Longrightarrow> \<not> removeID_second s v k"
  by (subst removeID_second.simps) simp

lemma removeID_eq:
  "removeID s v = (s, Some (if v \<in> set s then DuplicitId else IdNotFound))"
proof (cases "v \<in> set s")
  case True
  then have "v \<in> set (drop 0 s)" by simp
  from removeID_first_present [OF this]
  obtain k where "removeID_first s v 0 = (k, int k)" "k < length s" "s ! k = v" by blast
  with True show ?thesis by (simp add: removeID_def removeID_second_hit)
next
  case False
  then have "v \<notin> set (drop 0 s)" by simp
  from removeID_first_absent [OF this] False show ?thesis
    by (simp add: removeID_def removeID_second_end)
qed

subsection \<open>GetChildren\<close>

lemma GetChildren_present:
  "records s u = Some r \<Longrightarrow> GetChildren s u = (s, Return (Children (heap s r), None))"
  by (simp add: GetChildren_def)

lemma GetChildren_absent:
  "records s u = None \<Longrightarrow> GetChildren s u = (s, Panic)"
  by (simp add: GetChildren_def)

subsection \<open>The example stores\<close>

lemma encode_loop_0: "encode_loop 0 [] = []"
  by (simp add: encode_loop.simps)

lemma replicate_21: "replicate 21 c = [c,c,c,c,c,c,c,c,c,c,c,c,c,c,c,c,c,c,c,c,c]"
  by (simp add: eval_nat_numeral)

lemma String_small:
  "0 < SetBytes v \<Longrightarrow> SetBytes v < 58 \<Longrightarrow>
     String v = replicate 21 CHR ''1'' @ [b58table ! SetBytes v]"
  by (simp add: String_def encode_loop_step encode_loop_0 pad_loop_eq strlen_def b58table_def)

lemma String_id1: "String id1 = ''1111111111111111111112''"
  by (subst String_small) (simp_all add: id1_def SetBytes_def replicate_21 b58table_def)

lemma String_id2: "String id2 = ''1111111111111111111113''"
  by (subst String_small) (simp_all add: id2_def SetBytes_def replicate_21 b58table_def)

lemma Parse_id1: "Parse ''1111111111111111111112'' = Inr id1"
  using Parse_String [of id1] by (simp only: String_id1) (simp add: id1_def)

lemma Parse_id2: "Parse ''1111111111111111111113'' = Inr id2"
  using Parse_String [of id2] by (simp only: String_id2) (simp add: id2_def)

lemma id1_neq_id2: "id1 \<noteq> id2"
  by (simp add: id1_def id2_def)

lemma pat_id1: "onlyFileInFsRootPattern ''1111111111111111111112''"
  by (simp add: onlyFileInFsRootPattern_def idPattern_char_def in_range_def)

lemma pat_id2: "onlyFileInFsRootPattern ''1111111111111111111113''"
  by (simp add: onlyFileInFsRootPattern_def idPattern_char_def in_range_def)

lemma pat_id2_data: "onlyFileInFsRootPattern ''1111111111111111111113.data''"
  by (simp add: onlyFileInFsRootPattern_def idPattern_char_def sectionPattern_char_def in_range_def)

lemma pat_readme: "\<not> onlyFileInFsRootPattern ''readme.txt''"
  by (simp add: onlyFileInFsRootPattern_def)

lemma scan_disk0:
  "scan_entries (base_dir disk0) [] = Inr [''1111111111111111111112'', ''1111111111111111111113'']"
  by (simp add: disk0_def pat_id1 pat_id2 pat_id2_data)

lemma load_files_step:
  assumes "Parse n = Inr u" and "Open s n = Inr (Doc cs d nm)" and "parse_children cs = Inr us"
  shows "load_files s (n # rest) =
           load_files
             (s\<lparr>next_addr := next_addr s + 1,
                heap := (heap s)(next_addr s :=
                  \<lparr>Children = us, IsDir = d, Name = nm, ident = zeroID, refs = 0,
                   mutex = False\<rparr>),
                records := (records s)(u \<mapsto> next_addr s)\<rparr>)
             rest"
  using assms by (simp add: Let_def Decode_def new_record_def)

lemma Open_base:
  "base_ok s \<Longrightarrow> map_of (base_dir s) n = Some (File c) \<Longrightarrow> Open s n = Inr c"
  by (simp add: Open_def)

lemma load_disk0:
  "load_files (disk0\<lparr>lock_readers := 0, lock_writer := False, records := Map.empty,
                    root := r, basePath := path\<rparr>)
       [''1111111111111111111112'', ''1111111111111111111113''] =
     (disk0\<lparr>root := r, basePath := path, next_addr := 2,
            heap := (\<lambda>_. new_record)
              (0 := \<lparr>Children = [id2], IsDir = True, Name = ''root'', ident = zeroID,
                     refs = 0, mutex = False\<rparr>,
               1 := \<lparr>Children = [], IsDir = False, Name = ''a.txt'', ident = zeroID,
                     refs = 0, mutex = False\<rparr>),
            records := [id1 \<mapsto> 0, id2 \<mapsto> 1]\<rparr>, None)"
  apply (subst load_files_step [where u = id1 and cs = "[''1111111111111111111113'']"
        and d = True and nm = "''root''" and us = "[id2]"])
     apply (rule Parse_id1)
    apply (rule Open_base)
     apply (simp add: disk0_def)
    apply (simp add: disk0_def)
   apply (simp add: Parse_id2)
  apply (subst load_files_step [where u = id2 and cs = "[]"
        and d = False and nm = "''a.txt''" and us = "[]"])
     apply (rule Parse_id2)
    apply (rule Open_base)
     apply (simp add: disk0_def)
    apply (simp add: disk0_def)
   apply simp
  apply (simp add: disk0_def)
  done

lemma loadRecords_disk0:
  "loadRecords (disk0\<lparr>lock_readers := 0, lock_writer := False, records := Map.empty,
                    root := r, basePath := path\<rparr>) =
     (disk0\<lparr>root := r, basePath := path, next_addr := 2,
            heap := (\<lambda>_. new_record)
              (0 := \<lparr>Children = [id2], IsDir = True, Name = ''root'', ident = zeroID,
                     refs = 0, mutex = False\<rparr>,
               1 := \<lparr>Children = [], IsDir = False, Name = ''a.txt'', ident = zeroID,
                     refs = 0, mutex = False\<rparr>),
            records := [id1 \<mapsto> 0, id2 \<mapsto> 1]\<rparr>, None)"
proof -
  let ?s = "disk0\<lparr>lock_readers := 0, lock_writer := False, records := Map.empty,
                    root := r, basePath := path\<rparr>"
  have bd: "base_dir ?s = base_dir disk0" by simp
  have ok: "base_ok ?s" by (simp add: disk0_def)
  have "loadRecords ?s = load_files ?s [''1111111111111111111112'', ''1111111111111111111113'']"
    unfolding loadRecords_def ReadDir_def using ok by (simp only: if_True bd scan_disk0 sum.case)
  then show ?thesis by (simp only: load_disk0)
qed

lemma NewFs_disk0:
  "NewFs id1 path disk0 =
     (disk0\<lparr>root := id1, basePath := path, next_addr := 2,
            heap := (\<lambda>_. new_record)
              (0 := \<lparr>Children = [id2], IsDir = True, Name = ''root'', ident = zeroID,
                     refs = 0, mutex = False\<rparr>,
               1 := \<lparr>Children = [], IsDir = False, Name = ''a.txt'', ident = zeroID,
                     refs = 0, mutex = False\<rparr>),
            records := [id1 \<mapsto> 0, id2 \<mapsto> 1]\<rparr>, None)"
  unfolding NewFs_def Let_def
  by (simp only: loadRecords_disk0) (simp add: checkLoadedRecordsAreSane_def)

lemma id5_neq: "id5 \<noteq> id1" "id5 \<noteq> id2" "id4 \<noteq> id1" "id4 \<noteq> id2" "id3 \<noteq> id1" "id3 \<noteq> id2"
  by (simp_all add: id1_def id2_def id3_def id4_def id5_def)

lemma NewFs_disk0_other_root:
  "snd (NewFs id5 path disk0) = Some RootNotFound \<and>
   records (fst (NewFs id5 path disk0)) id5 = None"
  unfolding NewFs_def Let_def
  by (simp only: loadRecords_disk0) (simp add: id5_neq)

lemma loaded_eq:
  "loaded =
     disk0\<lparr>root := id1, basePath := ''/srv/archiiv/files'', next_addr := 2,
            heap := (\<lambda>_. new_record)
              (0 := \<lparr>Children = [id2], IsDir = True, Name = ''root'', ident = zeroID,
                     refs = 0, mutex = False\<rparr>,
               1 := \<lparr>Children = [], IsDir = False, Name = ''a.txt'', ident = zeroID,
                     refs = 0, mutex = False\<rparr>),
            records := [id1 \<mapsto> 0, id2 \<mapsto> 1]\<rparr>"
  by (simp add: loaded_def NewFs_disk0)

lemma loaded_fields:
  "records loaded id1 = Some 0" "records loaded id2 = Some 1"
  "records loaded id3 = None" "records loaded id4 = None"
  "heap loaded 0 = \<lparr>Children = [id2], IsDir = True, Name = ''root'', ident = zeroID,
                     refs = 0, mutex = False\<rparr>"
  "heap loaded 1 = \<lparr>Children = [], IsDir = False, Name = ''a.txt'', ident = zeroID,
                     refs = 0, mutex = False\<rparr>"
  "lock_readers loaded = 0" "lock_writer loaded = False" "next_addr loaded = 2"
  by (simp_all add: loaded_eq id1_neq_id2 id5_neq disk0_def)

subsection \<open>Loading\<close>

lemma scan_entries_garbage:
  "(name, e) \<in> set es \<Longrightarrow> e = Dir \<or> \<not> onlyFileInFsRootPattern name \<Longrightarrow>
     \<exists>err. scan_entries es acc = Inl err \<and>
       (err = GarbageDirectory \<or> (\<exists>n. err = GarbageFile n \<and> \<not> onlyFileInFsRootPattern n))"
proof (induction es arbitrary: acc)
  case Nil then show ?case by simp
next
  case (Cons x es)
  obtain m d where x: "x = (m, d)" by (cases x)
  show ?case
  proof (cases "d = Dir")
    case True with x show ?thesis by simp
  next
    case notdir: False
    show ?thesis
    proof (cases "onlyFileInFsRootPattern m")
      case False with x notdir show ?thesis by simp
    next
      case True
      with Cons.prems x notdir have "(name, e) \<in> set es" by auto
      from Cons.IH [OF this Cons.prems(2)] x notdir True show ?thesis by simp
    qed
  qed
qed

lemma linked_fields:
  "records linked id1 = Some 0" "records linked id2 = Some 1" "records linked id3 = Some 2"
  "records linked id4 = Some 3" "records linked id5 = Some 4"
  "lock_readers linked = 0" "lock_writer linked = False"
  by (simp_all add: linked_def id1_def id2_def id3_def id4_def id5_def)

lemma linked_heap_at:
  "heap linked 1 = \<lparr>Children = [id4], IsDir = True, Name = ''p1'', ident = id2, refs = 1,
                     mutex = False\<rparr>"
  "heap linked 2 = \<lparr>Children = [id4], IsDir = True, Name = ''p2'', ident = id3, refs = 1,
                     mutex = False\<rparr>"
  "heap linked 3 = \<lparr>Children = [id5], IsDir = True, Name = ''shared'', ident = id4, refs = 2,
                     mutex = False\<rparr>"
  "heap linked 4 = \<lparr>Children = [], IsDir = False, Name = ''a.jpg'', ident = id5, refs = 1,
                     mutex = False\<rparr>"
  by (simp_all add: linked_def linked_heap_def)

text \<open>
  Claim C9. When the directory at \<^verbatim>\<open>basePath\<close> can be read and holds a directory, or a
  file whose name is neither 22 identifier symbols nor that followed by a dot and a section
  name, \<^verbatim>\<open>NewFs\<close> returns the error "garbage directory in fs root" or "garbage file in
  fs root" (for a name that does not fit), and the map of the \<^verbatim>\<open>Fs\<close> it was building
  is empty: no record was loaded. When the root identifier is not among the records of the
  \<^verbatim>\<open>Fs\<close> that \<^verbatim>\<open>NewFs\<close> built, \<^verbatim>\<open>NewFs\<close> returns an error.
\<close>

theorem NewFs_fails_on_garbage:
  "(base_ok s \<and> (name, e) \<in> set (base_dir s) \<and> (e = Dir \<or> \<not> onlyFileInFsRootPattern name) \<longrightarrow>
      (\<exists>err. snd (NewFs rootID path s) = Some err \<and>
         (err = GarbageDirectory \<or> (\<exists>n. err = GarbageFile n \<and> \<not> onlyFileInFsRootPattern n)) \<and>
         records (fst (NewFs rootID path s)) = Map.empty))
   \<and> (records (fst (NewFs rootID path s)) rootID = None \<longrightarrow>
        snd (NewFs rootID path s) \<noteq> None)"
proof (intro conjI impI)
  assume a: "base_ok s \<and> (name, e) \<in> set (base_dir s) \<and> (e = Dir \<or> \<not> onlyFileInFsRootPattern name)"
  let ?s = "s\<lparr>lock_readers := 0, lock_writer := False, records := Map.empty,
              root := rootID, basePath := path\<rparr>"
  from a scan_entries_garbage [of name e "base_dir s" "[]"]
  obtain err where err: "scan_entries (base_dir s) [] = Inl err"
    and kind: "err = GarbageDirectory \<or> (\<exists>n. err = GarbageFile n \<and> \<not> onlyFileInFsRootPattern n)"
    by blast
  from a err have "loadRecords ?s = (?s, Some err)"
    by (simp add: loadRecords_def ReadDir_def)
  then have "NewFs rootID path s = (?s, Some err)"
    by (simp add: NewFs_def Let_def)
  with kind show "\<exists>err. snd (NewFs rootID path s) = Some err \<and>
         (err = GarbageDirectory \<or> (\<exists>n. err = GarbageFile n \<and> \<not> onlyFileInFsRootPattern n)) \<and>
         records (fst (NewFs rootID path s)) = Map.empty"
    by simp
next
  assume "records (fst (NewFs rootID path s)) rootID = None"
  then show "snd (NewFs rootID path s) \<noteq> None"
    by (auto simp: NewFs_def Let_def checkLoadedRecordsAreSane_def split: prod.splits option.splits if_splits)
qed

theorem NewFs_fails_on_garbage_witness:
  "(\<exists>err. snd (NewFs id1 ''/srv/archiiv/files'' disk_garbage) = Some err \<and>
      (err = GarbageDirectory \<or> (\<exists>n. err = GarbageFile n \<and> \<not> onlyFileInFsRootPattern n)) \<and>
      records (fst (NewFs id1 ''/srv/archiiv/files'' disk_garbage)) = Map.empty)
   \<and> records (fst (NewFs id5 ''/srv/archiiv/files'' disk0)) id5 = None
   \<and> snd (NewFs id5 ''/srv/archiiv/files'' disk0) \<noteq> None"
proof -
  have "base_ok disk_garbage \<and> (''readme.txt'', File Opaque) \<in> set (base_dir disk_garbage) \<and>
        (File Opaque = Dir \<or> \<not> onlyFileInFsRootPattern ''readme.txt'')"
    by (simp add: disk_garbage_def disk0_def pat_readme)
  with NewFs_fails_on_garbage [of disk_garbage "''readme.txt''" "File Opaque" id1 "''/srv/archiiv/files''"]
  have 1: "\<exists>err. snd (NewFs id1 ''/srv/archiiv/files'' disk_garbage) = Some err \<and>
      (err = GarbageDirectory \<or> (\<exists>n. err = GarbageFile n \<and> \<not> onlyFileInFsRootPattern n)) \<and>
      records (fst (NewFs id1 ''/srv/archiiv/files'' disk_garbage)) = Map.empty"
    by blast
  have 2: "records (fst (NewFs id5 ''/srv/archiiv/files'' disk0)) id5 = None"
    using NewFs_disk0_other_root by simp
  with NewFs_fails_on_garbage [of disk0 "''x''" Dir id5 "''/srv/archiiv/files''"]
  have "snd (NewFs id5 ''/srv/archiiv/files'' disk0) \<noteq> None" by blast
  with 1 2 show ?thesis by blast
qed

lemma load_invD:
  "load_inv dir s \<Longrightarrow> records s u = Some a \<Longrightarrow>
     a < next_addr s \<and> refs (heap s a) = 0 \<and>
     (\<exists>n cs d nm. Parse n = Inr u \<and> (n, File (Doc cs d nm)) \<in> set dir \<and>
        parse_children cs = Inr (Children (heap s a)))"
  unfolding load_inv_def by blast

lemma Open_Decode:
  assumes "Open s n = Inr c" and "Decode c r0 = Inr r"
  shows "\<exists>cs d nm us. (n, File (Doc cs d nm)) \<in> set (base_dir s) \<and>
           parse_children cs = Inr us \<and>
           r = r0\<lparr>Children := us, IsDir := d, Name := nm\<rparr>"
proof -
  from assms(2) obtain cs d nm us where c: "c = Doc cs d nm"
    and us: "parse_children cs = Inr us"
    and r: "r = r0\<lparr>Children := us, IsDir := d, Name := nm\<rparr>"
    by (auto simp: Decode_def split: content.splits sum.splits)
  from assms(1) c have "map_of (base_dir s) n = Some (File (Doc cs d nm))"
    by (auto simp: Open_def split: if_splits option.splits dirent.splits)
  then have "(n, File (Doc cs d nm)) \<in> set (base_dir s)" by (rule map_of_SomeD)
  with us r show ?thesis by blast
qed

lemma load_files_inv:
  "load_inv dir s \<Longrightarrow> base_dir s = dir \<Longrightarrow> load_files s ns = (s', err) \<Longrightarrow> load_inv dir s'"
proof (induction ns arbitrary: s)
  case Nil
  then show ?case by simp
next
  case (Cons n ns)
  show ?case
  proof (cases "Parse n")
    case (Inl e)
    with Cons.prems show ?thesis by simp
  next
    case (Inr u)
    note pu = this
    show ?thesis
    proof (cases "Open s n")
      case (Inl e)
      with Cons.prems pu show ?thesis by simp
    next
      case (Inr c)
      note op = this
      let ?a = "next_addr s"
      let ?s1 = "s\<lparr>next_addr := ?a + 1, heap := (heap s)(?a := new_record)\<rparr>"
      show ?thesis
      proof (cases "Decode c new_record")
        case (Inl e)
        with Cons.prems pu op have "s' = ?s1" by (simp add: Let_def)
        moreover have "load_inv dir ?s1"
          unfolding load_inv_def
        proof (intro allI impI)
          fix v b assume "records ?s1 v = Some b"
          then have old: "records s v = Some b" by simp
          from load_invD [OF Cons.prems(1) old]
          show "b < next_addr ?s1 \<and> refs (heap ?s1 b) = 0 \<and>
                (\<exists>n cs d nm. Parse n = Inr v \<and> (n, File (Doc cs d nm)) \<in> set dir \<and>
                   parse_children cs = Inr (Children (heap ?s1 b)))"
            by auto
        qed
        ultimately show ?thesis by simp
      next
        case (Inr r)
        from Open_Decode [OF op Inr] Cons.prems(2)
        obtain cs d nm us where mem: "(n, File (Doc cs d nm)) \<in> set dir"
          and us: "parse_children cs = Inr us"
          and r: "r = new_record\<lparr>Children := us, IsDir := d, Name := nm\<rparr>" by blast
        let ?s2 = "?s1\<lparr>heap := (heap ?s1)(?a := r), records := (records ?s1)(u \<mapsto> ?a)\<rparr>"
        have step: "load_files s (n # ns) = load_files ?s2 ns"
          using pu op Inr by (simp add: Let_def)
        have inv2: "load_inv dir ?s2"
          unfolding load_inv_def
        proof (intro allI impI)
          fix v b assume vb: "records ?s2 v = Some b"
          show "b < next_addr ?s2 \<and> refs (heap ?s2 b) = 0 \<and>
                (\<exists>n cs d nm. Parse n = Inr v \<and> (n, File (Doc cs d nm)) \<in> set dir \<and>
                   parse_children cs = Inr (Children (heap ?s2 b)))"
          proof (cases "v = u")
            case True
            with vb have "b = ?a" by simp
            with True pu mem us r show ?thesis by (auto simp: new_record_def)
          next
            case False
            with vb have old: "records s v = Some b" by simp
            from load_invD [OF Cons.prems(1) old] show ?thesis by auto
          qed
        qed
        have "base_dir ?s2 = dir" using Cons.prems(2) by simp
        from Cons.IH [OF inv2 this] Cons.prems(3) step show ?thesis by simp
      qed
    qed
  qed
qed

lemma NewFs_load_inv: "load_inv (base_dir s) (fst (NewFs rootID path s))"
proof -
  let ?s = "s\<lparr>lock_readers := 0, lock_writer := False, records := Map.empty,
              root := rootID, basePath := path\<rparr>"
  have i0: "load_inv (base_dir s) ?s" by (simp add: load_inv_def)
  obtain s1 e1 where lr: "loadRecords ?s = (s1, e1)" by (cases "loadRecords ?s")
  have "load_inv (base_dir s) s1"
  proof (cases "ReadDir ?s")
    case (Inl e)
    with lr i0 show ?thesis by (auto simp: loadRecords_def)
  next
    case (Inr entries)
    show ?thesis
    proof (cases "scan_entries entries []")
      case (Inl e)
      with lr i0 Inr show ?thesis by (auto simp: loadRecords_def)
    next
      case scan: (Inr files)
      with lr Inr have "load_files ?s files = (s1, e1)" by (simp add: loadRecords_def)
      from load_files_inv [OF i0 _ this] show ?thesis by simp
    qed
  qed
  moreover have "fst (NewFs rootID path s) = s1"
    using lr by (auto simp: NewFs_def Let_def split: option.splits)
  ultimately show ?thesis by simp
qed

lemma parents_of_loaded: "parents_of loaded id2 = {id1}"
proof -
  have "\<And>p. (\<exists>b. records loaded p = Some b \<and> id2 \<in> set (Children (heap loaded b))) \<longleftrightarrow> p = id1"
    by (auto simp: loaded_eq id1_neq_id2 split: if_splits)
  then show ?thesis by (simp add: parents_of_def)
qed

text \<open>
  Claim C1, as amended. In the store that \<^verbatim>\<open>NewFs\<close> builds, every record has the
  reference count 0, however many parents list it, and its children are the decoded
  children of a record document of the storage root whose file name parses to the record's
  identifier: loading takes the children lists as they are persisted and neither computes
  reference counts nor looks for duplicates. Nothing is said about the states after
  \<^verbatim>\<open>Touch\<close>, \<^verbatim>\<open>Mkdir\<close>, \<^verbatim>\<open>Mount\<close> or \<^verbatim>\<open>Unmount\<close>.
\<close>

theorem NewFs_refcounts_zero:
  "records (fst (NewFs rootID path s)) u = Some a \<longrightarrow>
     refs (heap (fst (NewFs rootID path s)) a) = 0 \<and>
     (\<exists>n cs d nm. Parse n = Inr u \<and> (n, File (Doc cs d nm)) \<in> set (base_dir s) \<and>
        parse_children cs = Inr (Children (heap (fst (NewFs rootID path s)) a)))"
  using load_invD [OF NewFs_load_inv] by blast

theorem NewFs_refcounts_zero_witness:
  "records (fst (NewFs id1 ''/srv/archiiv/files'' disk0)) id2 = Some 1 \<and>
   refs (heap (fst (NewFs id1 ''/srv/archiiv/files'' disk0)) 1) = 0 \<and>
   (\<exists>n cs d nm. Parse n = Inr id2 \<and> (n, File (Doc cs d nm)) \<in> set (base_dir disk0) \<and>
      parse_children cs =
        Inr (Children (heap (fst (NewFs id1 ''/srv/archiiv/files'' disk0)) 1)))"
proof -
  have r: "records (fst (NewFs id1 ''/srv/archiiv/files'' disk0)) id2 = Some 1"
    by (simp add: NewFs_disk0)
  with NewFs_refcounts_zero [of id1 "''/srv/archiiv/files''" disk0 id2 1]
  show ?thesis by blast
qed

text \<open>
  Claim C1, as stated, fails at the freshly loaded store, before any operation: the
  storage root \<open>disk0\<close> holds a root that lists one file, \<^verbatim>\<open>NewFs\<close> loads both
  without an error, the file has exactly one parent, and its reference count is 0.
\<close>

theorem load_leaves_refcount_zero:
  "snd (NewFs id1 ''/srv/archiiv/files'' disk0) = None \<and>
   records loaded id1 = Some 0 \<and> records loaded id2 = Some 1 \<and>
   id2 \<in> set (Children (heap loaded 0)) \<and> refs (heap loaded 1) = 0 \<and>
   parents_of loaded id2 = {id1} \<and>
   unat (refs (heap loaded 1)) \<noteq> card (parents_of loaded id2)"
  by (simp add: NewFs_disk0 loaded_fields parents_of_loaded del: One_nat_def)

text \<open>
  Claim C3 is about an \<^verbatim>\<open>Unmount\<close> that takes the last reference away. In the store
  \<open>linked\<close> the file \<open>id5\<close> is listed by \<open>id4\<close> only and its count is 1;
  \<^verbatim>\<open>Unmount(id4, id5)\<close> ends the process in its first call of \<^verbatim>\<open>record\<close>, with the
  map, the children, the count and the files as they were. \<^verbatim>\<open>removeID\<close>, which the call
  never reaches, answers "duplicite id" for an identifier that occurs once. Unmounting the
  only child of the root of the freshly loaded store ends in the same way.
\<close>

theorem Unmount_last_reference:
  "records linked id4 = Some 3 \<and> records linked id5 = Some 4 \<and>
   id5 \<in> set (Children (heap linked 3)) \<and> refs (heap linked 4) = 1 \<and>
   Unmount (Suc n) linked id4 id5 = (linked\<lparr>lock_readers := 1\<rparr>, Fatal) \<and>
   removeID (Children (heap linked 3)) id5 = ([id5], Some DuplicitId) \<and>
   Unmount (Suc n) loaded id1 id2 = (loaded\<lparr>lock_readers := 1\<rparr>, Fatal)"
  by (simp add: linked_fields linked_heap_at loaded_fields Unmount_eq removeID_eq
      del: Unmount.simps One_nat_def)

text \<open>
  Claim C4 is about a child with two parents. In \<open>linked\<close> the directory \<open>id4\<close>
  is listed by \<open>id2\<close> and by \<open>id3\<close> and its count is 2; \<^verbatim>\<open>Unmount(id2, id4)\<close>
  does not succeed: it ends the process before anything is changed, and \<^verbatim>\<open>removeID\<close>
  on the parent's children would refuse to remove the child.
\<close>

theorem Unmount_shared_child:
  "records linked id2 = Some 1 \<and> records linked id3 = Some 2 \<and> records linked id4 = Some 3 \<and>
   id4 \<in> set (Children (heap linked 1)) \<and> id4 \<in> set (Children (heap linked 2)) \<and>
   refs (heap linked 3) = 2 \<and>
   Unmount (Suc n) linked id2 id4 = (linked\<lparr>lock_readers := 1\<rparr>, Fatal) \<and>
   removeID (Children (heap linked 1)) id4 = ([id4], Some DuplicitId)"
  by (simp add: linked_fields linked_heap_at Unmount_eq removeID_eq del: Unmount.simps One_nat_def)

text \<open>
  Claim C5 is about creating a child under a parent that exists. \<open>id1\<close> is the root
  of the freshly loaded store; \<^verbatim>\<open>Touch\<close> and \<^verbatim>\<open>Mkdir\<close> under it end the process
  and create nothing, and the lookup they start with reports the root as missing.
\<close>

theorem createChild_existing_parent:
  "records loaded id1 = Some 0 \<and>
   Touch loaded id1 ''a.txt'' (Some id3) = (loaded\<lparr>lock_readers := 1\<rparr>, Fatal) \<and>
   Mkdir loaded id1 ''photos'' (Some id3) = (loaded\<lparr>lock_readers := 1\<rparr>, Fatal) \<and>
   record_body loaded id1 = (None, Some IdDoesntExist)"
  by (simp add: loaded_fields Touch_eq Mkdir_eq record_body_present)

lemma newRecord_nil_parent:
  "\<not> lock_writer s \<Longrightarrow> lock_readers s = 0 \<Longrightarrow>
     newRecord s None name dir (Some v) =
       (s\<lparr>next_addr := next_addr s + 1,
          heap := (heap s)(next_addr s :=
            \<lparr>Children = [], IsDir = dir, Name = name, ident = v, refs = 1, mutex = False\<rparr>),
          records := (records s)(v \<mapsto> next_addr s)\<rparr>, Panic)"
  by (simp add: newRecord_def Let_def New_def setRecord_def Lock_def Unlock_def seq_def
      with_defer_def upd_obj_def new_record_def)

text \<open>
  Claim C6 is about creating a child under a parent that does not exist. \<open>id4\<close> is
  not in the freshly loaded store; \<^verbatim>\<open>Touch\<close> and \<^verbatim>\<open>Mkdir\<close> under it end the process
  and return no error. The lookup reports no error for the missing parent, and
  \<^verbatim>\<open>newRecord\<close> with the nil parent it would be given puts the new record into the map
  and then panics.
\<close>

theorem createChild_missing_parent:
  "records loaded id4 = None \<and>
   Touch loaded id4 ''a.txt'' (Some id3) = (loaded\<lparr>lock_readers := 1\<rparr>, Fatal) \<and>
   Mkdir loaded id4 ''photos'' (Some id3) = (loaded\<lparr>lock_readers := 1\<rparr>, Fatal) \<and>
   record_body loaded id4 = (None, None) \<and>
   snd (newRecord loaded None ''a.txt'' False (Some id3)) = Panic \<and>
   records (fst (newRecord loaded None ''a.txt'' False (Some id3))) id3 = Some 2"
  by (simp add: loaded_fields Touch_eq Mkdir_eq record_body_absent newRecord_nil_parent)

text \<open>
  Claim C7 is about mounting a child a second time. In the freshly loaded store the root
  \<open>id1\<close> lists \<open>id2\<close>; \<^verbatim>\<open>Mount(id1, id2)\<close> ends the process, and the lookup of
  the child, taken alone, reports "id doesn't exist": the test for a duplicate edge and its
  error are never reached.
\<close>

theorem Mount_already_mounted:
  "records loaded id1 = Some 0 \<and> records loaded id2 = Some 1 \<and>
   id2 \<in> set (Children (heap loaded 0)) \<and>
   Mount loaded id1 id2 = (loaded\<lparr>lock_readers := 1\<rparr>, Fatal) \<and>
   record_body loaded id2 = (None, Some IdDoesntExist)"
  by (simp add: loaded_fields Mount_eq record_body_present del: One_nat_def)

text \<open>
  Claim C8. \<^verbatim>\<open>GetChildren\<close> returns the children of an identifier that is in the map;
  for one that is not, it dereferences a nil pointer and panics instead of returning an
  error.
\<close>

theorem GetChildren_missing:
  "records loaded id1 = Some 0 \<and> GetChildren loaded id1 = (loaded, Return ([id2], None)) \<and>
   records loaded id4 = None \<and> GetChildren loaded id4 = (loaded, Panic)"
  by (simp add: loaded_fields GetChildren_present GetChildren_absent del: One_nat_def)

end
